theory Spec2Isabelle
  imports Main "HOL-Library.Word"
begin

section \<open>The byte sink\<close>

text \<open>
  \<^verbatim>\<open>ByteTreeSerialization.h\<close> writes through \<^verbatim>\<open>llvm::BinaryStreamWriter\<close>, which LLVM
  declares: it calls \<^verbatim>\<open>writeInteger\<close>, \<^verbatim>\<open>writeFixedString\<close> and \<^verbatim>\<open>getOffset\<close> and tests
  the \<^verbatim>\<open>llvm::Error\<close> they return. The spec describes "an abstract sink supporting append raw
  bytes, report current offset, report failure", whose write may fail for "backing storage
  exhaustion", and a fixed byte order that it documents as little-endian. This section is
  that sink.
\<close>

type_synonym byte = "8 word"

text \<open>Modelled from the spec: \<^verbatim>\<open>llvm::Error\<close>, success or the failure of a write.\<close>

datatype Error = ErrorSuccess | BinaryStreamError

text \<open>Modelled from the spec: the byte order of a stream.\<close>

datatype endianness = big | little

text \<open>
  Modelled from the spec: \<^verbatim>\<open>llvm::BinaryStreamWriter\<close> with the stream behind it. \<open>Bytes\<close>
  are the bytes appended so far, \<open>Endian\<close> is the byte order of the stream, a parameter, and
  \<open>Capacity\<close> is the size of the backing storage, \<open>None\<close> for a stream that grows on demand.
\<close>

record BinaryStreamWriter =
  Bytes :: "byte list"
  Endian :: endianness
  Capacity :: "nat option"

text \<open>
  Modelled from the spec: \<^verbatim>\<open>getOffset\<close>, the current offset. The stream writer returns it
  as a \<^verbatim>\<open>uint32_t\<close>: it is the number of bytes appended so far, modulo \<open>2\<^sup>3\<^sup>2\<close>.
\<close>

definition getOffset :: "BinaryStreamWriter \<Rightarrow> 32 word" where
  "getOffset S = of_nat (length (Bytes S))"

text \<open>
  Modelled from the spec: whether the backing storage has room for \<open>n\<close> more bytes. A write
  of no bytes has nothing to fail on.
\<close>

definition accepts :: "BinaryStreamWriter \<Rightarrow> nat \<Rightarrow> bool" where
  "accepts S n =
     (case Capacity S of None \<Rightarrow> True | Some c \<Rightarrow> n = 0 \<or> length (Bytes S) + n \<le> c)"

text \<open>
  Modelled from the spec: the write primitive, appending raw bytes. A failed write appends
  nothing and leaves the offset where it was.
\<close>

definition writeBytes :: "byte list \<Rightarrow> BinaryStreamWriter \<Rightarrow> Error \<times> BinaryStreamWriter" where
  "writeBytes Buffer S =
     (if accepts S (length Buffer) then (ErrorSuccess, S\<lparr>Bytes := Bytes S @ Buffer\<rparr>)
      else (BinaryStreamError, S))"

text \<open>
  Modelled from the spec: the raw encoding of an unsigned integer of 8, 16 or 32 bits in
  the byte order of the stream, lowest byte first when it is little-endian.
\<close>

fun le_bytes :: "nat \<Rightarrow> 'a::len word \<Rightarrow> byte list" where
  "le_bytes 0 v = []"
| "le_bytes (Suc n) v = ucast v # le_bytes n (drop_bit 8 v)"

definition integer_bytes :: "endianness \<Rightarrow> 'a::len word \<Rightarrow> byte list" where
  "integer_bytes e v =
     (case e of little \<Rightarrow> le_bytes (LENGTH('a) div 8) v
              | big \<Rightarrow> rev (le_bytes (LENGTH('a) div 8) v))"

text \<open>Modelled from the spec: \<^verbatim>\<open>writeInteger\<close>, one write of the integer's bytes.\<close>

definition writeInteger :: "'a::len word \<Rightarrow> BinaryStreamWriter \<Rightarrow> Error \<times> BinaryStreamWriter" where
  "writeInteger Value S = writeBytes (integer_bytes (Endian S) Value) S"

text \<open>
  Modelled from the spec: \<^verbatim>\<open>writeFixedString\<close>, a "raw copy, no terminator, no escaping".
\<close>

definition writeFixedString :: "byte list \<Rightarrow> BinaryStreamWriter \<Rightarrow> Error \<times> BinaryStreamWriter" where
  "writeFixedString Str S = writeBytes Str S"

section \<open>Values and their capabilities\<close>

text \<open>
  A type is serializable through exactly one of \<^verbatim>\<open>ScalarTraits\<close>, \<^verbatim>\<open>ObjectTraits\<close> and
  \<^verbatim>\<open>WrapperTypeTraits\<close>; the overloads of \<^verbatim>\<open>ByteTreeWriter::write\<close> are selected by
  \<^verbatim>\<open>enable_if\<close> on which of them is specialised. A value together with the
  specialisation of its type is a constructor of the types below.

  The scalar types are the five specialisations of the header, and \<open>OtherScalar\<close> for a
  specialisation supplied elsewhere: the result of its \<^verbatim>\<open>size\<close> and its \<^verbatim>\<open>write\<close>,
  which may do anything to the stream writer it is handed.
\<close>

datatype scalar =
    UInt8 "8 word"
  | UInt16 "16 word"
  | UInt32 "32 word"
  | StringRef "byte list"
  | NoneType
  | OtherScalar "32 word" "BinaryStreamWriter \<Rightarrow> Error \<times> BinaryStreamWriter"

text \<open>
  The writer's constructor, \<^verbatim>\<open>setNumFields\<close> and the index check are private, and
  \<^verbatim>\<open>write\<close> returns nothing: all that \<^verbatim>\<open>ObjectTraits<T>::write(Writer, Object)\<close> can do
  with the writer is call \<^verbatim>\<open>Writer.write(Field, Index)\<close> some number of times. An object
  is therefore the result of \<^verbatim>\<open>numFields\<close> and the list of those calls in order.
  Likewise \<^verbatim>\<open>WrapperTypeTraits<T>::write(Writer, Value, Index)\<close> is the list of the calls
  it makes, each with its index computed from \<^verbatim>\<open>Index\<close>; the documented form is the
  single call \<^verbatim>\<open>Writer.write(convertedValue(Value), Index)\<close>.
\<close>

datatype "value" =
    Scalar scalar
  | Object "32 word" "(value \<times> 32 word) list"
  | Wrapper "(value \<times> (32 word \<Rightarrow> 32 word)) list"

fun ScalarTraits_size :: "scalar \<Rightarrow> 32 word" where
  "ScalarTraits_size (UInt8 Value) = 1"
| "ScalarTraits_size (UInt16 Value) = 2"
| "ScalarTraits_size (UInt32 Value) = 4"
| "ScalarTraits_size (StringRef Str) = of_nat (length Str)"
| "ScalarTraits_size NoneType = 0"
| "ScalarTraits_size (OtherScalar n w) = n"

fun ScalarTraits_write :: "scalar \<Rightarrow> BinaryStreamWriter \<Rightarrow> Error \<times> BinaryStreamWriter" where
  "ScalarTraits_write (UInt8 Value) Writer = writeInteger Value Writer"
| "ScalarTraits_write (UInt16 Value) Writer = writeInteger Value Writer"
| "ScalarTraits_write (UInt32 Value) Writer = writeInteger Value Writer"
| "ScalarTraits_write (StringRef Str) Writer = writeFixedString Str Writer"
| "ScalarTraits_write NoneType Writer = (ErrorSuccess, Writer)"
| "ScalarTraits_write (OtherScalar n w) Writer = w Writer"

text \<open>\<^verbatim>\<open>WrapperTypeTraits<bool>\<close>: one call, of the value cast to \<^verbatim>\<open>uint8_t\<close>, at \<^verbatim>\<open>Index\<close>.\<close>

definition WrapperTypeTraits_bool :: "bool \<Rightarrow> value" where
  "WrapperTypeTraits_bool Value =
     Wrapper [(Scalar (UInt8 (if Value then 1 else 0)), \<lambda>Index. Index)]"

section \<open>The writer\<close>

text \<open>
  Every check of the header is an \<^verbatim>\<open>assert\<close>. In a validating build (\<^verbatim>\<open>NDEBUG\<close> not
  defined) a failed assertion aborts the process; otherwise the assertion is compiled out.
  The functions below take the build as their first argument and return \<open>Inl\<close> of the
  failed assertion for an abort, \<open>Inr\<close> of the state for a normal return.
\<close>

datatype assertion =
    NumFields_may_not_be_reset
  | NumFields_has_already_been_set
  | no_Error_writing_NumFields
  | setNumFields_must_be_called_before_writing
  | Writing_index_out_of_order
  | Writing_more_fields_than_expected
  | Object_had_more_or_less_elements
  | no_Error_writing_ProtocolVersion
  | no_SizeError
  | no_ContentError
  | written_bytes_do_not_match_size
  | WrapperTypeTraits_did_not_call_write

text \<open>
  A writer holds a reference to the stream writer it shares with its parent and children;
  here it holds the current state of that stream writer, handed on to whoever writes next.
\<close>

record ByteTreeWriter =
  StreamWriter :: BinaryStreamWriter
  NumFields :: "32 word"
  CurrentFieldIndex :: "32 word"

definition UINT_MAX :: "32 word" where
  "UINT_MAX = - 1"

definition ByteTreeWriter_new :: "BinaryStreamWriter \<Rightarrow> ByteTreeWriter" where
  "ByteTreeWriter_new S = \<lparr>StreamWriter = S, NumFields = UINT_MAX, CurrentFieldIndex = 0\<rparr>"

definition setNumFields :: "bool \<Rightarrow> 32 word \<Rightarrow> ByteTreeWriter \<Rightarrow> assertion + ByteTreeWriter" where
  "setNumFields validating N W =
     (if validating \<and> \<not> (N \<noteq> UINT_MAX) then Inl NumFields_may_not_be_reset
      else if validating \<and> \<not> (NumFields W = UINT_MAX) then Inl NumFields_has_already_been_set
      else case writeInteger N (StreamWriter W) of (Error, S) \<Rightarrow>
        if validating \<and> \<not> (Error = ErrorSuccess) then Inl no_Error_writing_NumFields
        else Inr (W\<lparr>StreamWriter := S, NumFields := N\<rparr>))"

definition validateAndIncreaseFieldIndex ::
    "bool \<Rightarrow> 32 word \<Rightarrow> ByteTreeWriter \<Rightarrow> assertion + ByteTreeWriter" where
  "validateAndIncreaseFieldIndex validating Index W =
     (if validating \<and> \<not> (NumFields W \<noteq> UINT_MAX)
        then Inl setNumFields_must_be_called_before_writing
      else if validating \<and> \<not> (Index = CurrentFieldIndex W) then Inl Writing_index_out_of_order
      else if validating \<and> \<not> (Index < NumFields W) then Inl Writing_more_fields_than_expected
      else Inr (W\<lparr>CurrentFieldIndex := CurrentFieldIndex W + 1\<rparr>))"

text \<open>The destructor \<^verbatim>\<open>~ByteTreeWriter\<close>.\<close>

definition destroy :: "bool \<Rightarrow> ByteTreeWriter \<Rightarrow> assertion + unit" where
  "destroy validating W =
     (if validating \<and> \<not> (CurrentFieldIndex W = NumFields W)
        then Inl Object_had_more_or_less_elements
      else Inr ())"

text \<open>
  The scalar overload of \<^verbatim>\<open>write\<close>. The offsets and \<^verbatim>\<open>ValueSize\<close> are \<^verbatim>\<open>uint32_t\<close>: the
  subtraction in \<^verbatim>\<open>getOffset() - StartOffset == ValueSize\<close> wraps around.
\<close>

definition write_scalar ::
    "bool \<Rightarrow> scalar \<Rightarrow> 32 word \<Rightarrow> ByteTreeWriter \<Rightarrow> assertion + ByteTreeWriter" where
  "write_scalar validating Value Index W =
     (case validateAndIncreaseFieldIndex validating Index W of
        Inl a \<Rightarrow> Inl a
      | Inr W1 \<Rightarrow>
          let ValueSize = ScalarTraits_size Value in
          case writeInteger ValueSize (StreamWriter W1) of (SizeError, S1) \<Rightarrow>
            if validating \<and> \<not> (SizeError = ErrorSuccess) then Inl no_SizeError
            else
              let StartOffset = getOffset S1 in
              case ScalarTraits_write Value S1 of (ContentError, S2) \<Rightarrow>
                if validating \<and> \<not> (ContentError = ErrorSuccess) then Inl no_ContentError
                else if validating \<and> \<not> (getOffset S2 - StartOffset = ValueSize)
                  then Inl written_bytes_do_not_match_size
                else Inr (W1\<lparr>StreamWriter := S2\<rparr>))"

text \<open>
  The three overloads of the member \<^verbatim>\<open>write\<close>, with \<open>ObjectTraits_write\<close> running the
  calls of \<^verbatim>\<open>ObjectTraits<T>::write\<close> on the child writer and \<open>WrapperTypeTraits_write\<close>
  those of \<^verbatim>\<open>WrapperTypeTraits<T>::write\<close> on the writer itself. The child writer
  \<^verbatim>\<open>ObjectWriter\<close> is a local of the object overload, initialised in place (no temporary
  writer is destroyed): it is destroyed when the overload returns, and what it appended stays
  in the shared stream. An abort runs no destructor.
\<close>

fun Writer_write :: "bool \<Rightarrow> value \<Rightarrow> 32 word \<Rightarrow> ByteTreeWriter \<Rightarrow> assertion + ByteTreeWriter"
  and ObjectTraits_write ::
    "bool \<Rightarrow> (value \<times> 32 word) list \<Rightarrow> ByteTreeWriter \<Rightarrow> assertion + ByteTreeWriter"
  and WrapperTypeTraits_write ::
    "bool \<Rightarrow> (value \<times> (32 word \<Rightarrow> 32 word)) list \<Rightarrow> 32 word \<Rightarrow> ByteTreeWriter
      \<Rightarrow> assertion + ByteTreeWriter"
where
  "Writer_write validating (Scalar Value) Index W = write_scalar validating Value Index W"
| "Writer_write validating (Object numFields calls) Index W =
     (case validateAndIncreaseFieldIndex validating Index W of
        Inl a \<Rightarrow> Inl a
      | Inr W1 \<Rightarrow>
          (case setNumFields validating numFields (ByteTreeWriter_new (StreamWriter W1)) of
             Inl a \<Rightarrow> Inl a
           | Inr ObjectWriter \<Rightarrow>
               (case ObjectTraits_write validating calls ObjectWriter of
                  Inl a \<Rightarrow> Inl a
                | Inr ObjectWriter' \<Rightarrow>
                    (case destroy validating ObjectWriter' of
                       Inl a \<Rightarrow> Inl a
                     | Inr _ \<Rightarrow> Inr (W1\<lparr>StreamWriter := StreamWriter ObjectWriter'\<rparr>)))))"
| "Writer_write validating (Wrapper calls) Index W =
     (let LengthBeforeWrite = CurrentFieldIndex W in
      case WrapperTypeTraits_write validating calls Index W of
        Inl a \<Rightarrow> Inl a
      | Inr W' \<Rightarrow>
          if validating \<and> \<not> (CurrentFieldIndex W' = LengthBeforeWrite + 1)
            then Inl WrapperTypeTraits_did_not_call_write
          else Inr W')"
| "ObjectTraits_write validating [] Writer = Inr Writer"
| "ObjectTraits_write validating ((Member, Index) # calls) Writer =
     (case Writer_write validating Member Index Writer of
        Inl a \<Rightarrow> Inl a
      | Inr Writer' \<Rightarrow> ObjectTraits_write validating calls Writer')"
| "WrapperTypeTraits_write validating [] Index Writer = Inr Writer"
| "WrapperTypeTraits_write validating ((Converted, at) # calls) Index Writer =
     (case Writer_write validating Converted (at Index) Writer of
        Inl a \<Rightarrow> Inl a
      | Inr Writer' \<Rightarrow> WrapperTypeTraits_write validating calls Index Writer')"

text \<open>
  The static entry point \<^verbatim>\<open>ByteTreeWriter::write(ProtocolVersion, StreamWriter, Object)\<close>.
  It is enabled for types with \<^verbatim>\<open>ObjectTraits\<close> only, so the root is given by its field
  count and its calls. The local \<^verbatim>\<open>Writer\<close> is destroyed on return.
\<close>

definition write_static ::
    "bool \<Rightarrow> 32 word \<Rightarrow> BinaryStreamWriter \<Rightarrow> 32 word \<Rightarrow> (value \<times> 32 word) list
      \<Rightarrow> assertion + BinaryStreamWriter" where
  "write_static validating ProtocolVersion S numFields calls =
     (let Writer = ByteTreeWriter_new S in
      case writeInteger ProtocolVersion (StreamWriter Writer) of (Error, S1) \<Rightarrow>
        if validating \<and> \<not> (Error = ErrorSuccess) then Inl no_Error_writing_ProtocolVersion
        else
          (let Writer = Writer\<lparr>StreamWriter := S1, NumFields := 1\<rparr> in
           (case Writer_write validating (Object numFields calls) 0 Writer of
              Inl a \<Rightarrow> Inl a
            | Inr Writer' \<Rightarrow>
                (case destroy validating Writer' of
                   Inl a \<Rightarrow> Inl a
                 | Inr _ \<Rightarrow> Inr (StreamWriter Writer')))))"

text \<open>
  A call \<^verbatim>\<open>Writer.write(Value, Index)\<close> \<^emph>\<open>forwards its index\<close> when \<^verbatim>\<open>Index\<close> is the index
  that reaches \<^verbatim>\<open>validateAndIncreaseFieldIndex\<close>: always for a scalar and for an object,
  and for a wrapper when its calls pass on the index they were given, as in the documented
  form \<^verbatim>\<open>Writer.write(convertedValue(Value), Index)\<close> that \<^verbatim>\<open>WrapperTypeTraits<bool>\<close> has.
\<close>

fun forwards_Index :: "value \<Rightarrow> 32 word \<Rightarrow> bool" where
  "forwards_Index (Scalar Value) Index = True"
| "forwards_Index (Object numFields calls) Index = True"
| "forwards_Index (Wrapper calls) Index =
     (\<forall>(Converted, at) \<in> set calls. at Index = Index \<and> forwards_Index Converted Index)"

text \<open>The scalar types whose \<^verbatim>\<open>ScalarTraits\<close> the header itself specialises.\<close>

fun header_scalar :: "scalar \<Rightarrow> bool" where
  "header_scalar (OtherScalar n w) = False"
| "header_scalar _ = True"

section \<open>The byte sink: facts\<close>

lemma le_bytes_2: "le_bytes 2 v = [ucast v, ucast (drop_bit 8 v)]"
  by (simp add: numeral_2_eq_2)

lemma le_bytes_4:
  "le_bytes 4 v = [ucast v, ucast (drop_bit 8 v), ucast (drop_bit 16 v), ucast (drop_bit 24 v)]"
  by (simp add: eval_nat_numeral drop_bit_drop_bit)

lemma length_le_bytes: "length (le_bytes n v) = n"
  by (induction n arbitrary: v) simp_all

lemma length_integer_bytes: "length (integer_bytes e (v::'a::len word)) = LENGTH('a) div 8"
  by (cases e) (simp_all add: integer_bytes_def length_le_bytes)

lemma writeInteger_accepted:
  "accepts S (LENGTH('a) div 8) \<Longrightarrow>
     writeInteger (v::'a::len word) S =
       (ErrorSuccess, S\<lparr>Bytes := Bytes S @ integer_bytes (Endian S) v\<rparr>)"
  by (simp add: writeInteger_def writeBytes_def length_integer_bytes)

lemma writeInteger_cases:
  "writeInteger (v::'a::len word) S =
       (ErrorSuccess, S\<lparr>Bytes := Bytes S @ integer_bytes (Endian S) v\<rparr>) \<or>
   writeInteger v S = (BinaryStreamError, S)"
  by (simp add: writeInteger_def writeBytes_def)

lemma writeBytes_appends:
  "writeBytes Buffer S = (ErrorSuccess, S') \<Longrightarrow> Bytes S' = Bytes S @ Buffer"
  by (auto simp: writeBytes_def split: if_splits)

lemma accepts_append:
  "accepts S (length bs + n) \<Longrightarrow> accepts (S\<lparr>Bytes := Bytes S @ bs\<rparr>) n"
  by (auto simp: accepts_def split: option.splits)

lemma accepts_less: "accepts S (m + n) \<Longrightarrow> accepts S m"
  by (auto simp: accepts_def split: option.splits)

lemma UINT_MAX_value: "unat UINT_MAX = 2 ^ 32 - 1"
  by (simp add: UINT_MAX_def unsigned_minus_1_eq_mask mask_eq_exp_minus_1)

text \<open>The definitions that a run of the writer on a given input unfolds.\<close>

lemmas writer_simps =
  write_static_def ByteTreeWriter_new_def writeInteger_def writeBytes_def accepts_def
  integer_bytes_def validateAndIncreaseFieldIndex_def setNumFields_def UINT_MAX_def destroy_def
  write_scalar_def getOffset_def writeFixedString_def le_bytes_4 le_bytes_2

section \<open>The writer in a validating build: what a normal return implies\<close>

lemma validate_True_Inr:
  "validateAndIncreaseFieldIndex True Index W = Inr W' \<longleftrightarrow>
     NumFields W \<noteq> UINT_MAX \<and> Index = CurrentFieldIndex W \<and> Index < NumFields W \<and>
     W' = W\<lparr>CurrentFieldIndex := CurrentFieldIndex W + 1\<rparr>"
  by (auto simp: validateAndIncreaseFieldIndex_def)

lemma unat_next_index: "(i::32 word) < n \<Longrightarrow> unat (i + 1) = unat i + 1"
proof -
  assume "i < n"
  then have "unat i < unat n" by (simp add: word_less_nat_alt)
  moreover have "unat n < 2 ^ LENGTH(32)" by (rule unsigned_less)
  ultimately have "unat i + unat (1::32 word) < 2 ^ LENGTH(32)" by simp
  then show ?thesis using unat_add_lem[of i 1] by simp
qed

lemma write_scalar_True_Inr:
  assumes "write_scalar True x Index W = Inr W'"
  shows "\<exists>W1. validateAndIncreaseFieldIndex True Index W = Inr W1 \<and>
           NumFields W' = NumFields W1 \<and> CurrentFieldIndex W' = CurrentFieldIndex W1"
  using assms
  by (auto simp: write_scalar_def Let_def split: sum.splits prod.splits if_splits)

lemma destroy_True: "destroy True W = Inr u \<longleftrightarrow> CurrentFieldIndex W = NumFields W"
  by (simp add: destroy_def)

lemma setNumFields_True_Inr:
  assumes "setNumFields True N W = Inr W'"
  shows "N \<noteq> UINT_MAX \<and> NumFields W = UINT_MAX \<and> NumFields W' = N \<and>
         CurrentFieldIndex W' = CurrentFieldIndex W"
  using assms
  by (auto simp: setNumFields_def split: prod.splits if_splits)

lemma Writer_write_Object_Inr:
  assumes "Writer_write v (Object n cs) Index W = Inr W'"
  shows "\<exists>W1 OW OW'. validateAndIncreaseFieldIndex v Index W = Inr W1 \<and>
           setNumFields v n (ByteTreeWriter_new (StreamWriter W1)) = Inr OW \<and>
           ObjectTraits_write v cs OW = Inr OW' \<and> destroy v OW' = Inr () \<and>
           W' = W1\<lparr>StreamWriter := StreamWriter OW'\<rparr>"
  using assms by (simp split: sum.splits)

lemma Writer_write_Wrapper_True_Inr:
  assumes "Writer_write True (Wrapper ds) Index W = Inr W'"
  shows "WrapperTypeTraits_write True ds Index W = Inr W' \<and>
         CurrentFieldIndex W' = CurrentFieldIndex W + 1"
  using assms by (simp add: Let_def split: sum.splits if_splits)

lemma ObjectTraits_write_Cons_Inr:
  assumes "ObjectTraits_write v ((x, i) # cs) W = Inr W'"
  shows "\<exists>W1. Writer_write v x i W = Inr W1 \<and> ObjectTraits_write v cs W1 = Inr W'"
  using assms by (simp split: sum.splits)

lemma WrapperTypeTraits_write_Cons_Inr:
  assumes "WrapperTypeTraits_write v ((x, at) # ds) Index W = Inr W'"
  shows "\<exists>W1. Writer_write v x (at Index) W = Inr W1 \<and>
           WrapperTypeTraits_write v ds Index W1 = Inr W'"
  using assms by (simp split: sum.splits)

text \<open>
  One accepted call followed by \<open>n\<close> more: the index has moved by \<open>Suc n\<close> without wrapping
  and is still within the field count.
\<close>

lemma advance_step:
  assumes a: "NumFields W1 = NumFields W" "CurrentFieldIndex W < NumFields W"
      "CurrentFieldIndex W1 = CurrentFieldIndex W + 1"
    and b: "NumFields W' = NumFields W1"
      "unat (CurrentFieldIndex W') = unat (CurrentFieldIndex W1) + n"
      "0 < n \<longrightarrow> CurrentFieldIndex W' \<le> NumFields W1"
  shows "NumFields W' = NumFields W \<and>
         unat (CurrentFieldIndex W') = unat (CurrentFieldIndex W) + Suc n \<and>
         CurrentFieldIndex W' \<le> NumFields W"
proof -
  have s: "unat (CurrentFieldIndex W1) = unat (CurrentFieldIndex W) + 1"
    using a(2,3) unat_next_index by simp
  have "unat (CurrentFieldIndex W1) \<le> unat (NumFields W)"
    using a(2) s by (simp add: word_less_nat_alt)
  then have "CurrentFieldIndex W' \<le> NumFields W"
    using b(2,3) a(1) by (cases "n = 0") (simp_all add: word_le_nat_alt)
  then show ?thesis using a(1) b(1,2) s by simp
qed

text \<open>
  In a validating build every call of \<^verbatim>\<open>write\<close> that returns, whatever the capability of
  its value, has moved the writer's index by exactly one, from a position below the field
  count; a sequence of calls has moved it by the number of calls.
\<close>

lemma advance:
  shows "validating \<Longrightarrow> Writer_write validating x Index W = Inr W' \<Longrightarrow>
           NumFields W' = NumFields W \<and> CurrentFieldIndex W < NumFields W \<and>
           CurrentFieldIndex W' = CurrentFieldIndex W + 1"
    and "validating \<Longrightarrow> ObjectTraits_write validating calls W = Inr W' \<Longrightarrow>
           NumFields W' = NumFields W \<and>
           unat (CurrentFieldIndex W') = unat (CurrentFieldIndex W) + length calls \<and>
           (0 < length calls \<longrightarrow> CurrentFieldIndex W' \<le> NumFields W)"
    and "validating \<Longrightarrow> WrapperTypeTraits_write validating ds Index W = Inr W' \<Longrightarrow>
           NumFields W' = NumFields W \<and>
           unat (CurrentFieldIndex W') = unat (CurrentFieldIndex W) + length ds \<and>
           (0 < length ds \<longrightarrow> CurrentFieldIndex W' \<le> NumFields W)"
proof (induction validating x Index W and validating calls W and validating ds Index W
    arbitrary: W' and W' and W'
    rule: Writer_write_ObjectTraits_write_WrapperTypeTraits_write.induct)
  case (1 validating Value Index W)
  then have "write_scalar True Value Index W = Inr W'" by simp
  from write_scalar_True_Inr[OF this] show ?case
    by (auto simp: validate_True_Inr)
next
  case (2 validating numFields calls Index W)
  then have "Writer_write True (Object numFields calls) Index W = Inr W'" by simp
  from Writer_write_Object_Inr[OF this] show ?case
    by (auto simp: validate_True_Inr)
next
  case (3 validating calls Index W)
  then have "Writer_write True (Wrapper calls) Index W = Inr W'" by simp
  from Writer_write_Wrapper_True_Inr[OF this]
  have w: "WrapperTypeTraits_write True calls Index W = Inr W'"
    and c: "CurrentFieldIndex W' = CurrentFieldIndex W + 1" by simp_all
  from "3.prems"(1) w have w': "WrapperTypeTraits_write validating calls Index W = Inr W'"
    by simp
  from "3.IH"[OF refl "3.prems"(1) w']
  have n: "NumFields W' = NumFields W"
    and u: "unat (CurrentFieldIndex W') = unat (CurrentFieldIndex W) + length calls"
    and l: "0 < length calls \<longrightarrow> CurrentFieldIndex W' \<le> NumFields W"
    by simp_all
  have ne: "0 < length calls"
  proof (rule ccontr)
    assume "\<not> 0 < length calls"
    with u c have "unat (CurrentFieldIndex W + 1) = unat (CurrentFieldIndex W)" by simp
    then have "CurrentFieldIndex W + 1 = CurrentFieldIndex W" by (simp only: word_unat_eq_iff)
    then show False by simp
  qed
  with u have "unat (CurrentFieldIndex W) < unat (CurrentFieldIndex W')" by simp
  then have "CurrentFieldIndex W < CurrentFieldIndex W'" by (simp add: word_less_nat_alt)
  with l ne have "CurrentFieldIndex W < NumFields W" by simp
  with n c show ?case by simp
next
  case (4 validating Writer)
  then show ?case by simp
next
  case (5 validating Member Index calls Writer)
  from ObjectTraits_write_Cons_Inr[OF "5.prems"(2)] obtain W1 where
    a: "Writer_write validating Member Index Writer = Inr W1" and
    b: "ObjectTraits_write validating calls W1 = Inr W'"
    by blast
  from "5.IH"(1)[OF "5.prems"(1) a]
  have a': "NumFields W1 = NumFields Writer" "CurrentFieldIndex Writer < NumFields Writer"
    "CurrentFieldIndex W1 = CurrentFieldIndex Writer + 1" by simp_all
  from "5.IH"(2)[OF a "5.prems"(1) b]
  have b': "NumFields W' = NumFields W1"
    "unat (CurrentFieldIndex W') = unat (CurrentFieldIndex W1) + length calls"
    "0 < length calls \<longrightarrow> CurrentFieldIndex W' \<le> NumFields W1" by simp_all
  from advance_step[OF a' b'] show ?case by simp
next
  case (6 validating Index Writer)
  then show ?case by simp
next
  case (7 validating Converted at calls Index Writer)
  from WrapperTypeTraits_write_Cons_Inr[OF "7.prems"(2)] obtain W1 where
    a: "Writer_write validating Converted (at Index) Writer = Inr W1" and
    b: "WrapperTypeTraits_write validating calls Index W1 = Inr W'"
    by blast
  from "7.IH"(1)[OF "7.prems"(1) a]
  have a': "NumFields W1 = NumFields Writer" "CurrentFieldIndex Writer < NumFields Writer"
    "CurrentFieldIndex W1 = CurrentFieldIndex Writer + 1" by simp_all
  from "7.IH"(2)[OF a "7.prems"(1) b]
  have b': "NumFields W' = NumFields W1"
    "unat (CurrentFieldIndex W') = unat (CurrentFieldIndex W1) + length calls"
    "0 < length calls \<longrightarrow> CurrentFieldIndex W' \<le> NumFields W1" by simp_all
  from advance_step[OF a' b'] show ?case by simp
qed

text \<open>A wrapper write that returns made exactly one call, and its result is that call's.\<close>

lemma Writer_write_Wrapper_single:
  assumes "Writer_write True (Wrapper ds) Index W = Inr W'"
  shows "\<exists>Converted at. ds = [(Converted, at)] \<and>
           Writer_write True Converted (at Index) W = Inr W'"
proof -
  from Writer_write_Wrapper_True_Inr[OF assms]
  have w: "WrapperTypeTraits_write True ds Index W = Inr W'"
    and c: "CurrentFieldIndex W' = CurrentFieldIndex W + 1" by simp_all
  from advance(1)[OF TrueI assms] have l: "CurrentFieldIndex W < NumFields W" by simp
  from advance(3)[OF TrueI w]
  have "unat (CurrentFieldIndex W + 1) = unat (CurrentFieldIndex W) + length ds"
    using c by simp
  with unat_next_index[OF l] have "length ds = 1" by simp
  then obtain d where d: "ds = [d]" by (cases ds) auto
  obtain Converted at where "d = (Converted, at)" by (cases d)
  with d w show ?thesis by (auto split: sum.splits)
qed

lemma Writer_write_forwards_Inr:
  "forwards_Index x Index \<Longrightarrow> Writer_write True x Index W = Inr W' \<Longrightarrow>
     NumFields W \<noteq> UINT_MAX \<and> Index = CurrentFieldIndex W"
proof (induction x Index rule: forwards_Index.induct)
  case (1 Value Index)
  then have "write_scalar True Value Index W = Inr W'" by simp
  from write_scalar_True_Inr[OF this] show ?case by (auto simp: validate_True_Inr)
next
  case (2 numFields calls Index)
  from Writer_write_Object_Inr[OF "2.prems"(2)] show ?case by (auto simp: validate_True_Inr)
next
  case (3 calls Index)
  from Writer_write_Wrapper_single[OF "3.prems"(2)] obtain Converted at where
    d: "calls = [(Converted, at)]" and w: "Writer_write True Converted (at Index) W = Inr W'"
    by blast
  from "3.prems"(1) d have f: "at Index = Index" "forwards_Index Converted Index" by simp_all
  from "3.IH"[of "(Converted, at)" Converted at] d f w show ?case by simp
qed

section \<open>The claims of the specification\<close>

subsection \<open>C1: scenario A\<close>

text \<open>
  C1. On a little-endian stream writer that accepts 24 more bytes, in either build, the static
  \<^verbatim>\<open>write\<close> of version 1 and a root object of two fields, \<^verbatim>\<open>uint32_t\<close> 1 at index 0 and
  \<^verbatim>\<open>uint32_t\<close> 2 at index 1, returns and has appended \<open>01 00 00 00\<close>, \<open>02 00 00 00\<close>,
  \<open>04 00 00 00 01 00 00 00\<close>, \<open>04 00 00 00 02 00 00 00\<close>.
\<close>

theorem scenario_A_bytes:
  assumes "Endian S = little" and "accepts S 24"
  shows "write_static validating 1 S 2 [(Scalar (UInt32 1), 0), (Scalar (UInt32 2), 1)] =
     Inr (S\<lparr>Bytes := Bytes S @
       [1, 0, 0, 0, 2, 0, 0, 0, 4, 0, 0, 0, 1, 0, 0, 0, 4, 0, 0, 0, 2, 0, 0, 0]\<rparr>)"
  using assms by (cases "Capacity S") (simp_all add: writer_simps)

theorem scenario_A_bytes_witness:
  "Endian \<lparr>Bytes = [], Endian = little, Capacity = None\<rparr> = little \<and>
   accepts \<lparr>Bytes = [], Endian = little, Capacity = None\<rparr> 24 \<and>
   write_static True 1 \<lparr>Bytes = [], Endian = little, Capacity = None\<rparr> 2
       [(Scalar (UInt32 1), 0), (Scalar (UInt32 2), 1)] =
     Inr \<lparr>Bytes = [1, 0, 0, 0, 2, 0, 0, 0, 4, 0, 0, 0, 1, 0, 0, 0, 4, 0, 0, 0, 2, 0, 0, 0],
          Endian = little, Capacity = None\<rparr>"
proof -
  let ?S = "\<lparr>Bytes = [], Endian = little, Capacity = None\<rparr>"
  have e: "Endian ?S = little" by simp
  have a: "accepts ?S 24" by (simp add: accepts_def)
  from scenario_A_bytes[OF e a, of True] e a show ?thesis by simp
qed

subsection \<open>C2: a failing stream writer\<close>

text \<open>
  C2, as stated, has the failure of the sink returned to the caller as an error and the
  emission abandoned. With room for 21 bytes and a string of 10 bytes as the first field, the
  content of that field does not fit. The validating build aborts on the assertion
  \<^verbatim>\<open>!ContentError\<close>, as it does on a broken contract. The other build drops the error,
  goes on with the second field and returns a stream in which the 10 bytes announced are
  missing.
\<close>

theorem sink_failure_is_an_error_result_counterexample:
  "write_static True 1 \<lparr>Bytes = [], Endian = little, Capacity = Some 21\<rparr> 2
       [(Scalar (StringRef [1, 2, 3, 4, 5, 6, 7, 8, 9, 10]), 0), (Scalar (UInt8 7), 1)] =
     Inl no_ContentError \<and>
   write_static False 1 \<lparr>Bytes = [], Endian = little, Capacity = Some 21\<rparr> 2
       [(Scalar (StringRef [1, 2, 3, 4, 5, 6, 7, 8, 9, 10]), 0), (Scalar (UInt8 7), 1)] =
     Inr \<lparr>Bytes = [1, 0, 0, 0, 2, 0, 0, 0, 10, 0, 0, 0] @ [1, 0, 0, 0, 7],
          Endian = little, Capacity = Some 21\<rparr>"
  by (simp add: writer_simps)

text \<open>
  C2, amended. When the index is valid, the length has been written and
  \<^verbatim>\<open>ScalarTraits<T>::write\<close> returns an error to the scalar overload, a validating build
  aborts on the assertion \<^verbatim>\<open>!ContentError\<close>; a build without assertions discards the
  error and returns with whatever \<^verbatim>\<open>ScalarTraits<T>::write\<close> left in the stream.
\<close>

theorem sink_failure_is_an_assertion_failure:
  assumes "validateAndIncreaseFieldIndex validating Index W = Inr W1"
    and "writeInteger (ScalarTraits_size Value) (StreamWriter W1) = (ErrorSuccess, S1)"
    and "ScalarTraits_write Value S1 = (ContentError, S2)"
    and "ContentError \<noteq> ErrorSuccess"
  shows "Writer_write validating (Scalar Value) Index W =
     (if validating then Inl no_ContentError else Inr (W1\<lparr>StreamWriter := S2\<rparr>))"
  using assms by (simp add: write_scalar_def Let_def)

theorem sink_failure_is_an_assertion_failure_witness:
  "validateAndIncreaseFieldIndex True 0
      \<lparr>StreamWriter = \<lparr>Bytes = [], Endian = little, Capacity = Some 5\<rparr>,
       NumFields = 1, CurrentFieldIndex = 0\<rparr> =
     Inr \<lparr>StreamWriter = \<lparr>Bytes = [], Endian = little, Capacity = Some 5\<rparr>,
          NumFields = 1, CurrentFieldIndex = 1\<rparr> \<and>
   writeInteger (ScalarTraits_size (UInt16 9))
      \<lparr>Bytes = [], Endian = little, Capacity = Some 5\<rparr> =
     (ErrorSuccess, \<lparr>Bytes = [2, 0, 0, 0], Endian = little, Capacity = Some 5\<rparr>) \<and>
   ScalarTraits_write (UInt16 9) \<lparr>Bytes = [2, 0, 0, 0], Endian = little, Capacity = Some 5\<rparr> =
     (BinaryStreamError, \<lparr>Bytes = [2, 0, 0, 0], Endian = little, Capacity = Some 5\<rparr>) \<and>
   Writer_write True (Scalar (UInt16 9)) 0
      \<lparr>StreamWriter = \<lparr>Bytes = [], Endian = little, Capacity = Some 5\<rparr>,
       NumFields = 1, CurrentFieldIndex = 0\<rparr> = Inl no_ContentError \<and>
   Writer_write False (Scalar (UInt16 9)) 0
      \<lparr>StreamWriter = \<lparr>Bytes = [], Endian = little, Capacity = Some 5\<rparr>,
       NumFields = 1, CurrentFieldIndex = 0\<rparr> =
     Inr \<lparr>StreamWriter = \<lparr>Bytes = [2, 0, 0, 0], Endian = little, Capacity = Some 5\<rparr>,
          NumFields = 1, CurrentFieldIndex = 1\<rparr>"
proof -
  let ?S = "\<lparr>Bytes = [], Endian = little, Capacity = Some 5\<rparr>"
  let ?S1 = "\<lparr>Bytes = [2, 0, 0, 0], Endian = little, Capacity = Some 5\<rparr>"
  let ?W = "\<lparr>StreamWriter = ?S, NumFields = 1, CurrentFieldIndex = 0\<rparr>"
  let ?W1 = "\<lparr>StreamWriter = ?S, NumFields = 1, CurrentFieldIndex = 1\<rparr>"
  have v: "validateAndIncreaseFieldIndex True 0 ?W = Inr ?W1"
    by (simp add: writer_simps)
  have i: "writeInteger (ScalarTraits_size (UInt16 9)) (StreamWriter ?W1) = (ErrorSuccess, ?S1)"
    by (simp add: writer_simps)
  have c: "ScalarTraits_write (UInt16 9) ?S1 = (BinaryStreamError, ?S1)"
    by (simp add: writer_simps)
  have n: "BinaryStreamError \<noteq> ErrorSuccess" by simp
  have v': "validateAndIncreaseFieldIndex False 0 ?W = Inr ?W1"
    by (simp add: writer_simps)
  from sink_failure_is_an_assertion_failure[OF v i c n]
  have t: "Writer_write True (Scalar (UInt16 9)) 0 ?W = Inl no_ContentError" by simp
  from sink_failure_is_an_assertion_failure[OF v' i c n]
  have f: "Writer_write False (Scalar (UInt16 9)) 0 ?W = Inr (?W1\<lparr>StreamWriter := ?S1\<rparr>)"
    by simp
  from v i c t f show ?thesis by simp
qed

subsection \<open>C3: fields are written in index order\<close>





subsection \<open>C4: a discarded writer has written all its fields\<close>

text \<open>
  C4. In a validating build, when the write of an object returns (its child writer has been
  destroyed), the number of calls that \<^verbatim>\<open>ObjectTraits<T>::write\<close> made on the child writer,
  each of which wrote one field, is the declared field count. When the calls all return but
  are fewer than declared, the write of the object aborts on the destructor's assertion. The
  destructor returns exactly when the index of the next field equals the field count.
\<close>

theorem discarded_writer_has_written_all_fields:
  "(Writer_write True (Object numFields calls) Index W = Inr W' \<longrightarrow>
      length calls = unat numFields) \<and>
   (validateAndIncreaseFieldIndex True Index W = Inr W1 \<longrightarrow>
    setNumFields True numFields (ByteTreeWriter_new (StreamWriter W1)) = Inr ObjectWriter \<longrightarrow>
    ObjectTraits_write True calls ObjectWriter = Inr ObjectWriter' \<longrightarrow>
      unat (CurrentFieldIndex ObjectWriter') = length calls \<and>
      (length calls < unat numFields \<longrightarrow>
         Writer_write True (Object numFields calls) Index W =
           Inl Object_had_more_or_less_elements)) \<and>
   (destroy True Writer = Inr () \<longleftrightarrow> CurrentFieldIndex Writer = NumFields Writer) \<and>
   (CurrentFieldIndex Writer \<noteq> NumFields Writer \<longrightarrow>
      destroy True Writer = Inl Object_had_more_or_less_elements)"
proof -
  have 1: "length calls = unat numFields"
    if w: "Writer_write True (Object numFields calls) Index W = Inr W'"
  proof -
    from Writer_write_Object_Inr[OF w] obtain W1 :: ByteTreeWriter and OW OW' where
      s: "setNumFields True numFields (ByteTreeWriter_new (StreamWriter W1)) = Inr OW" and
      o: "ObjectTraits_write True calls OW = Inr OW'" and e: "destroy True OW' = Inr ()"
      by blast
    from setNumFields_True_Inr[OF s]
    have ow: "NumFields OW = numFields" "CurrentFieldIndex OW = 0"
      by (simp_all add: ByteTreeWriter_new_def)
    from advance(2)[OF TrueI o] ow e show ?thesis
      by (simp add: destroy_True)
  qed
  have 2: "unat (CurrentFieldIndex ObjectWriter') = length calls \<and>
      (length calls < unat numFields \<longrightarrow>
         Writer_write True (Object numFields calls) Index W =
           Inl Object_had_more_or_less_elements)"
    if v: "validateAndIncreaseFieldIndex True Index W = Inr W1"
      and s: "setNumFields True numFields (ByteTreeWriter_new (StreamWriter W1)) = Inr ObjectWriter"
      and o: "ObjectTraits_write True calls ObjectWriter = Inr ObjectWriter'"
  proof -
    from setNumFields_True_Inr[OF s]
    have ow: "NumFields ObjectWriter = numFields" "CurrentFieldIndex ObjectWriter = 0"
      by (simp_all add: ByteTreeWriter_new_def)
    from advance(2)[OF TrueI o] ow
    have n: "NumFields ObjectWriter' = numFields"
      and u: "unat (CurrentFieldIndex ObjectWriter') = length calls" by simp_all
    have "CurrentFieldIndex ObjectWriter' \<noteq> NumFields ObjectWriter'"
      if "length calls < unat numFields"
      using that u n by auto
    then have "length calls < unat numFields \<longrightarrow>
        destroy True ObjectWriter' = Inl Object_had_more_or_less_elements"
      by (simp add: destroy_def)
    with v s o u show ?thesis by simp
  qed
  have 3: "destroy True Writer = Inr () \<longleftrightarrow> CurrentFieldIndex Writer = NumFields Writer"
    by (simp add: destroy_True)
  have 4: "CurrentFieldIndex Writer \<noteq> NumFields Writer \<longrightarrow>
      destroy True Writer = Inl Object_had_more_or_less_elements"
    by (simp add: destroy_def)
  from 1 2 3 4 show ?thesis by blast
qed

theorem discarded_writer_has_written_all_fields_witness:
  "Writer_write True (Object 2 [(Scalar (UInt32 1), 0), (Scalar (UInt32 2), 1)]) 0
      \<lparr>StreamWriter = \<lparr>Bytes = [], Endian = little, Capacity = None\<rparr>,
       NumFields = 1, CurrentFieldIndex = 0\<rparr> =
     Inr \<lparr>StreamWriter =
            \<lparr>Bytes = [2, 0, 0, 0, 4, 0, 0, 0, 1, 0, 0, 0, 4, 0, 0, 0, 2, 0, 0, 0],
             Endian = little, Capacity = None\<rparr>,
          NumFields = 1, CurrentFieldIndex = 1\<rparr> \<and>
   length [(Scalar (UInt32 1), 0 :: 32 word), (Scalar (UInt32 2), 1)] = unat (2 :: 32 word) \<and>
   ObjectTraits_write True [(Scalar (UInt32 1), 0)]
      \<lparr>StreamWriter = \<lparr>Bytes = [2, 0, 0, 0], Endian = little, Capacity = None\<rparr>,
       NumFields = 2, CurrentFieldIndex = 0\<rparr> =
     Inr \<lparr>StreamWriter = \<lparr>Bytes = [2, 0, 0, 0, 4, 0, 0, 0, 1, 0, 0, 0],
            Endian = little, Capacity = None\<rparr>,
          NumFields = 2, CurrentFieldIndex = 1\<rparr> \<and>
   Writer_write True (Object 2 [(Scalar (UInt32 1), 0)]) 0
      \<lparr>StreamWriter = \<lparr>Bytes = [], Endian = little, Capacity = None\<rparr>,
       NumFields = 1, CurrentFieldIndex = 0\<rparr> =
     Inl Object_had_more_or_less_elements \<and>
   destroy True \<lparr>StreamWriter = \<lparr>Bytes = [], Endian = little, Capacity = None\<rparr>,
       NumFields = 2, CurrentFieldIndex = 1\<rparr> = Inl Object_had_more_or_less_elements"
proof -
  let ?S = "\<lparr>Bytes = [], Endian = little, Capacity = None\<rparr>"
  let ?W = "\<lparr>StreamWriter = ?S, NumFields = 1, CurrentFieldIndex = 0\<rparr>"
  let ?W1 = "\<lparr>StreamWriter = ?S, NumFields = 1, CurrentFieldIndex = 1\<rparr>"
  let ?two = "[(Scalar (UInt32 1), 0 :: 32 word), (Scalar (UInt32 2), 1)]"
  let ?W' = "\<lparr>StreamWriter =
            \<lparr>Bytes = [2, 0, 0, 0, 4, 0, 0, 0, 1, 0, 0, 0, 4, 0, 0, 0, 2, 0, 0, 0],
             Endian = little, Capacity = None\<rparr>,
          NumFields = 1, CurrentFieldIndex = 1\<rparr>"
  let ?OW = "\<lparr>StreamWriter = \<lparr>Bytes = [2, 0, 0, 0], Endian = little, Capacity = None\<rparr>,
       NumFields = 2, CurrentFieldIndex = 0\<rparr>"
  let ?OW' = "\<lparr>StreamWriter = \<lparr>Bytes = [2, 0, 0, 0, 4, 0, 0, 0, 1, 0, 0, 0],
            Endian = little, Capacity = None\<rparr>,
          NumFields = 2, CurrentFieldIndex = 1\<rparr>"
  let ?D = "\<lparr>StreamWriter = ?S, NumFields = 2, CurrentFieldIndex = 1\<rparr>"
  have h1: "Writer_write True (Object 2 ?two) 0 ?W = Inr ?W'"
    by (simp add: writer_simps)
  have v: "validateAndIncreaseFieldIndex True 0 ?W = Inr ?W1"
    by (simp add: writer_simps)
  have s: "setNumFields True 2 (ByteTreeWriter_new (StreamWriter ?W1)) = Inr ?OW"
    by (simp add: writer_simps)
  have o: "ObjectTraits_write True [(Scalar (UInt32 1), 0)] ?OW = Inr ?OW'"
    by (simp add: writer_simps)
  have l: "length [(Scalar (UInt32 1), 0 :: 32 word)] < unat (2 :: 32 word)" by simp
  have d: "CurrentFieldIndex ?D \<noteq> NumFields ?D" by simp
  from discarded_writer_has_written_all_fields[of 2 ?two 0 ?W ?W'] h1
  have c1: "length ?two = unat (2 :: 32 word)" by blast
  from discarded_writer_has_written_all_fields[of 2 "[(Scalar (UInt32 1), 0)]" 0 ?W _ ?W1 ?OW ?OW']
    v s o l
  have c2: "Writer_write True (Object 2 [(Scalar (UInt32 1), 0)]) 0 ?W =
     Inl Object_had_more_or_less_elements" by blast
  from discarded_writer_has_written_all_fields[of _ _ _ _ _ _ _ _ ?D] d
  have c3: "destroy True ?D = Inl Object_had_more_or_less_elements" by blast
  from h1 c1 o c2 c3 show ?thesis by blast
qed

subsection \<open>C5: the length of a scalar and the bytes of its content\<close>

text \<open>
  What the \<^verbatim>\<open>ScalarTraits\<close> of the header write, they append; appending moves the offset
  by the number of bytes, modulo \<open>2\<^sup>3\<^sup>2\<close>.
\<close>

lemma ScalarTraits_write_appends:
  assumes "header_scalar Value" and "ScalarTraits_write Value S1 = (ErrorSuccess, S2)"
  shows "\<exists>content. Bytes S2 = Bytes S1 @ content"
proof (cases Value)
  case (UInt8 v)
  with assms(2) show ?thesis using writeBytes_appends by (auto simp: writeInteger_def)
next
  case (UInt16 v)
  with assms(2) show ?thesis using writeBytes_appends by (auto simp: writeInteger_def)
next
  case (UInt32 v)
  with assms(2) show ?thesis using writeBytes_appends by (auto simp: writeInteger_def)
next
  case (StringRef Str)
  with assms(2) show ?thesis using writeBytes_appends by (auto simp: writeFixedString_def)
next
  case NoneType
  with assms(2) show ?thesis by simp
next
  case (OtherScalar n w)
  with assms(1) show ?thesis by simp
qed

lemma getOffset_append:
  "Bytes S2 = Bytes S1 @ content \<Longrightarrow> getOffset S2 - getOffset S1 = of_nat (length content)"
  by (simp add: getOffset_def)

lemma length_eq_unat_size:
  assumes "length content < 2 ^ 32"
  shows "(of_nat (length content) = (n :: 32 word)) \<longleftrightarrow> length content = unat n"
proof
  assume "of_nat (length content) = n"
  then have "unat n = length content mod 2 ^ LENGTH(32)" by (auto simp: unat_of_nat)
  with assms show "length content = unat n" by simp
next
  assume "length content = unat n"
  then show "of_nat (length content) = n" by simp
qed

text \<open>
  C5, as stated, has every mismatch between the length and the bytes written abort a
  validating build. A \<^verbatim>\<open>ScalarTraits\<close> whose \<^verbatim>\<open>size\<close> is \<open>4294967295\<close> and whose \<^verbatim>\<open>write\<close>
  moves the offset back by one, from 4 to 3, passes the assertion, since \<open>3 - 4\<close> is
  \<open>4294967295\<close> in \<^verbatim>\<open>uint32_t\<close>: the write returns with a length of \<open>4294967295\<close> in the
  stream and no content behind it.
\<close>

theorem scalar_length_mismatch_is_fatal_counterexample:
  "Writer_write True
      (Scalar (OtherScalar 4294967295 (\<lambda>S. (ErrorSuccess, S\<lparr>Bytes := butlast (Bytes S)\<rparr>)))) 0
      \<lparr>StreamWriter = \<lparr>Bytes = [], Endian = little, Capacity = None\<rparr>,
       NumFields = 1, CurrentFieldIndex = 0\<rparr> =
     Inr \<lparr>StreamWriter = \<lparr>Bytes = [255, 255, 255], Endian = little, Capacity = None\<rparr>,
          NumFields = 1, CurrentFieldIndex = 1\<rparr> \<and>
   unat (ScalarTraits_size
      (OtherScalar 4294967295 (\<lambda>S. (ErrorSuccess, S\<lparr>Bytes := butlast (Bytes S)\<rparr>)))) =
     4294967295 \<and>
   getOffset \<lparr>Bytes = [255, 255, 255, 255], Endian = little, Capacity = None\<rparr> = 4 \<and>
   getOffset \<lparr>Bytes = [255, 255, 255], Endian = little, Capacity = None\<rparr> = 3"
  by (simp add: writer_simps drop_bit_eq_div)

text \<open>
  C5, amended. In a validating build, when the write of a scalar returns, the stream writer
  has accepted the 4 bytes of \<^verbatim>\<open>ScalarTraits<T>::size(Value)\<close> right behind what was there
  before, \<^verbatim>\<open>ScalarTraits<T>::write\<close> has then run on it without an error, and the offset
  behind it minus the offset before it, in \<^verbatim>\<open>uint32_t\<close>, is the size. When the index is valid,
  both writes succeed and \<^verbatim>\<open>ScalarTraits<T>::write\<close> has appended fewer than \<open>2\<^sup>3\<^sup>2\<close> bytes,
  the write returns if their number is the size and aborts on the assertion of the scalar
  overload if it is not. For the scalar types of the header the stream of a write that
  returns is the old one, the 4 bytes of the length and the content, whose number of bytes is
  the length modulo \<open>2\<^sup>3\<^sup>2\<close>, and the length itself when it is below \<open>2\<^sup>3\<^sup>2\<close>.
\<close>

theorem scalar_length_matches_content:
  "(Writer_write True (Scalar Value) Index W = Inr W' \<longrightarrow>
      (\<exists>S1. writeInteger (ScalarTraits_size Value) (StreamWriter W) = (ErrorSuccess, S1) \<and>
         Bytes S1 = Bytes (StreamWriter W) @
           integer_bytes (Endian (StreamWriter W)) (ScalarTraits_size Value) \<and>
         ScalarTraits_write Value S1 = (ErrorSuccess, StreamWriter W') \<and>
         getOffset (StreamWriter W') - getOffset S1 = ScalarTraits_size Value)) \<and>
   (validateAndIncreaseFieldIndex True Index W = Inr W1 \<longrightarrow>
    writeInteger (ScalarTraits_size Value) (StreamWriter W1) = (ErrorSuccess, S1) \<longrightarrow>
    ScalarTraits_write Value S1 = (ErrorSuccess, S2) \<longrightarrow>
    Bytes S2 = Bytes S1 @ content \<longrightarrow> length content < 2 ^ 32 \<longrightarrow>
      Writer_write True (Scalar Value) Index W =
        (if length content = unat (ScalarTraits_size Value)
           then Inr (W1\<lparr>StreamWriter := S2\<rparr>)
         else Inl written_bytes_do_not_match_size)) \<and>
   (header_scalar Value \<longrightarrow> Writer_write True (Scalar Value) Index W = Inr W' \<longrightarrow>
      (\<exists>content. Bytes (StreamWriter W') = Bytes (StreamWriter W) @
           integer_bytes (Endian (StreamWriter W)) (ScalarTraits_size Value) @ content \<and>
         of_nat (length content) = ScalarTraits_size Value \<and>
         (length content < 2 ^ 32 \<longrightarrow> length content = unat (ScalarTraits_size Value)))) \<and>
   length (integer_bytes (Endian (StreamWriter W)) (ScalarTraits_size Value)) = 4"
proof -
  have 1: "\<exists>S1. writeInteger (ScalarTraits_size Value) (StreamWriter W) = (ErrorSuccess, S1) \<and>
         Bytes S1 = Bytes (StreamWriter W) @
           integer_bytes (Endian (StreamWriter W)) (ScalarTraits_size Value) \<and>
         ScalarTraits_write Value S1 = (ErrorSuccess, StreamWriter W') \<and>
         getOffset (StreamWriter W') - getOffset S1 = ScalarTraits_size Value"
    if w: "Writer_write True (Scalar Value) Index W = Inr W'"
  proof -
    obtain e S1 where i: "writeInteger (ScalarTraits_size Value) (StreamWriter W) = (e, S1)"
      by (cases "writeInteger (ScalarTraits_size Value) (StreamWriter W)")
    obtain e' S2 where c: "ScalarTraits_write Value S1 = (e', S2)"
      by (cases "ScalarTraits_write Value S1")
    from w i c have r: "e = ErrorSuccess" "e' = ErrorSuccess" "StreamWriter W' = S2"
      "getOffset S2 - getOffset S1 = ScalarTraits_size Value"
      by (auto simp: write_scalar_def validateAndIncreaseFieldIndex_def Let_def
          split: if_splits)
    from writeInteger_cases[of "ScalarTraits_size Value" "StreamWriter W"] i r(1)
    have "Bytes S1 = Bytes (StreamWriter W) @
           integer_bytes (Endian (StreamWriter W)) (ScalarTraits_size Value)"
      by auto
    with i c r show ?thesis by simp
  qed
  have 2: "Writer_write True (Scalar Value) Index W =
        (if length content = unat (ScalarTraits_size Value)
           then Inr (W1\<lparr>StreamWriter := S2\<rparr>)
         else Inl written_bytes_do_not_match_size)"
    if v: "validateAndIncreaseFieldIndex True Index W = Inr W1"
      and i: "writeInteger (ScalarTraits_size Value) (StreamWriter W1) = (ErrorSuccess, S1)"
      and c: "ScalarTraits_write Value S1 = (ErrorSuccess, S2)"
      and a: "Bytes S2 = Bytes S1 @ content" and l: "length content < 2 ^ 32"
  proof -
    have "getOffset S2 - getOffset S1 = ScalarTraits_size Value \<longleftrightarrow>
        length content = unat (ScalarTraits_size Value)"
      using getOffset_append[OF a] length_eq_unat_size[OF l] by simp
    with v i c show ?thesis by (simp add: write_scalar_def Let_def)
  qed
  have 3: "length (integer_bytes (Endian (StreamWriter W)) (ScalarTraits_size Value)) = 4"
    by (simp add: length_integer_bytes)
  have 4: "\<exists>content. Bytes (StreamWriter W') = Bytes (StreamWriter W) @
           integer_bytes (Endian (StreamWriter W)) (ScalarTraits_size Value) @ content \<and>
         of_nat (length content) = ScalarTraits_size Value \<and>
         (length content < 2 ^ 32 \<longrightarrow> length content = unat (ScalarTraits_size Value))"
    if h: "header_scalar Value" and w: "Writer_write True (Scalar Value) Index W = Inr W'"
  proof -
    from 1[OF w] obtain S1 where
      b: "Bytes S1 = Bytes (StreamWriter W) @
           integer_bytes (Endian (StreamWriter W)) (ScalarTraits_size Value)" and
      c: "ScalarTraits_write Value S1 = (ErrorSuccess, StreamWriter W')" and
      o: "getOffset (StreamWriter W') - getOffset S1 = ScalarTraits_size Value"
      by blast
    from ScalarTraits_write_appends[OF h c] obtain content where
      a: "Bytes (StreamWriter W') = Bytes S1 @ content" by blast
    from getOffset_append[OF a] o
    have m: "of_nat (length content) = ScalarTraits_size Value" by simp
    have "length content = unat (ScalarTraits_size Value)" if "length content < 2 ^ 32"
      using length_eq_unat_size[OF that, THEN iffD1, OF m] .
    with a b m show ?thesis by simp
  qed
  from 1 2 3 4 show ?thesis by blast
qed

theorem scalar_length_matches_content_witness:
  "Writer_write True (Scalar (StringRef [104, 105])) 0
      \<lparr>StreamWriter = \<lparr>Bytes = [], Endian = little, Capacity = None\<rparr>,
       NumFields = 1, CurrentFieldIndex = 0\<rparr> =
     Inr \<lparr>StreamWriter = \<lparr>Bytes = [2, 0, 0, 0, 104, 105], Endian = little, Capacity = None\<rparr>,
          NumFields = 1, CurrentFieldIndex = 1\<rparr> \<and>
   getOffset \<lparr>Bytes = [2, 0, 0, 0, 104, 105], Endian = little, Capacity = None\<rparr> -
     getOffset \<lparr>Bytes = [2, 0, 0, 0], Endian = little, Capacity = None\<rparr> =
       ScalarTraits_size (StringRef [104, 105]) \<and>
   (\<exists>content. [2, 0, 0, 0, 104, 105] =
      integer_bytes little (ScalarTraits_size (StringRef [104, 105])) @ content \<and>
      length content = unat (ScalarTraits_size (StringRef [104, 105]))) \<and>
   ScalarTraits_write (OtherScalar 4 (writeBytes [1, 2]))
      \<lparr>Bytes = [4, 0, 0, 0], Endian = little, Capacity = None\<rparr> =
     (ErrorSuccess, \<lparr>Bytes = [4, 0, 0, 0, 1, 2], Endian = little, Capacity = None\<rparr>) \<and>
   length [1, 2 :: byte] < 2 ^ 32 \<and>
   Writer_write True (Scalar (OtherScalar 4 (writeBytes [1, 2]))) 0
      \<lparr>StreamWriter = \<lparr>Bytes = [], Endian = little, Capacity = None\<rparr>,
       NumFields = 1, CurrentFieldIndex = 0\<rparr> =
     Inl written_bytes_do_not_match_size"
proof -
  let ?S = "\<lparr>Bytes = [], Endian = little, Capacity = None\<rparr>"
  let ?W = "\<lparr>StreamWriter = ?S, NumFields = 1, CurrentFieldIndex = 0\<rparr>"
  let ?W1 = "\<lparr>StreamWriter = ?S, NumFields = 1, CurrentFieldIndex = 1\<rparr>"
  let ?W' = "\<lparr>StreamWriter = \<lparr>Bytes = [2, 0, 0, 0, 104, 105], Endian = little, Capacity = None\<rparr>,
          NumFields = 1, CurrentFieldIndex = 1\<rparr>"
  let ?hi = "StringRef [104, 105]"
  let ?bad = "OtherScalar 4 (writeBytes [1, 2])"
  let ?S1 = "\<lparr>Bytes = [4, 0, 0, 0], Endian = little, Capacity = None\<rparr>"
  let ?S2 = "\<lparr>Bytes = [4, 0, 0, 0, 1, 2], Endian = little, Capacity = None\<rparr>"
  have h1: "Writer_write True (Scalar ?hi) 0 ?W = Inr ?W'"
    by (simp add: writer_simps)
  have i1: "writeInteger (ScalarTraits_size ?hi) (StreamWriter ?W) =
      (ErrorSuccess, \<lparr>Bytes = [2, 0, 0, 0], Endian = little, Capacity = None\<rparr>)"
    by (simp add: writer_simps)
  have v: "validateAndIncreaseFieldIndex True 0 ?W = Inr ?W1"
    by (simp add: writer_simps)
  have i2: "writeInteger (ScalarTraits_size ?bad) (StreamWriter ?W1) = (ErrorSuccess, ?S1)"
    by (simp add: writer_simps)
  have c2: "ScalarTraits_write ?bad ?S1 = (ErrorSuccess, ?S2)"
    by (simp add: writer_simps)
  have a2: "Bytes ?S2 = Bytes ?S1 @ [1, 2]" by simp
  have l2: "length [1, 2 :: byte] < 2 ^ 32" by simp
  from scalar_length_matches_content[of ?hi 0 ?W ?W'] h1 obtain S1 where
    w1: "writeInteger (ScalarTraits_size ?hi) (StreamWriter ?W) = (ErrorSuccess, S1)" and
    o1: "getOffset (StreamWriter ?W') - getOffset S1 = ScalarTraits_size ?hi"
    by blast
  from w1 i1 have "S1 = \<lparr>Bytes = [2, 0, 0, 0], Endian = little, Capacity = None\<rparr>"
    by simp
  with o1 have r1: "getOffset (StreamWriter ?W') -
      getOffset \<lparr>Bytes = [2, 0, 0, 0], Endian = little, Capacity = None\<rparr> =
        ScalarTraits_size ?hi"
    by simp
  from scalar_length_matches_content[of ?bad 0 ?W _ ?W1 ?S1 ?S2 "[1, 2]"] v i2 c2 a2 l2
  have r2: "Writer_write True (Scalar ?bad) 0 ?W = Inl written_bytes_do_not_match_size"
    by simp
  have hs: "header_scalar ?hi" by simp
  from scalar_length_matches_content[of ?hi 0 ?W ?W'] hs h1 obtain content where
    b3: "Bytes (StreamWriter ?W') = Bytes (StreamWriter ?W) @
      integer_bytes (Endian (StreamWriter ?W)) (ScalarTraits_size ?hi) @ content" and
    l3: "length content < 2 ^ 32 \<longrightarrow> length content = unat (ScalarTraits_size ?hi)"
    by blast
  from b3 have "length content = 2" by (auto simp: integer_bytes_def le_bytes_4)
  with b3 l3 have r3: "\<exists>content. [2, 0, 0, 0, 104, 105] =
      integer_bytes little (ScalarTraits_size ?hi) @ content \<and>
      length content = unat (ScalarTraits_size ?hi)"
    by auto
  from h1 r1 r3 c2 l2 r2 show ?thesis by simp
qed

subsection \<open>C6: a wrapper delegates exactly once\<close>

text \<open>
  C6. In a validating build, when the write of a wrapper value at an index returns, then
  \<^verbatim>\<open>WrapperTypeTraits<T>::write\<close> made exactly one call on the same writer, the result is
  that call's, the index of that call (when the value it writes forwards it) is the writer's
  next expected index, and the writer's index has advanced by exactly one. When the calls it
  made all return but their number is not one (none, or two and more), the write aborts on
  the assertion of the wrapper overload; in any case a wrapper that does not make exactly one
  call aborts.
\<close>

theorem wrapper_delegates_exactly_once:
  "(Writer_write True (Wrapper calls) Index W = Inr W' \<longrightarrow>
      (\<exists>Converted at. calls = [(Converted, at)] \<and>
         Writer_write True Converted (at Index) W = Inr W' \<and>
         (forwards_Index Converted (at Index) \<longrightarrow> at Index = CurrentFieldIndex W)) \<and>
      CurrentFieldIndex W' = CurrentFieldIndex W + 1) \<and>
   (WrapperTypeTraits_write True calls Index W = Inr W' \<longrightarrow> length calls \<noteq> 1 \<longrightarrow>
      Writer_write True (Wrapper calls) Index W = Inl WrapperTypeTraits_did_not_call_write) \<and>
   (length calls \<noteq> 1 \<longrightarrow> (\<exists>a. Writer_write True (Wrapper calls) Index W = Inl a))"
proof -
  have 1: "(\<exists>Converted at. calls = [(Converted, at)] \<and>
         Writer_write True Converted (at Index) W = Inr W' \<and>
         (forwards_Index Converted (at Index) \<longrightarrow> at Index = CurrentFieldIndex W)) \<and>
      CurrentFieldIndex W' = CurrentFieldIndex W + 1"
    if w: "Writer_write True (Wrapper calls) Index W = Inr W'" for W'
  proof -
    from Writer_write_Wrapper_single[OF w] obtain Converted at where
      c: "calls = [(Converted, at)]" and d: "Writer_write True Converted (at Index) W = Inr W'"
      by blast
    have "at Index = CurrentFieldIndex W" if "forwards_Index Converted (at Index)"
      using Writer_write_forwards_Inr[OF that d] by simp
    with c d Writer_write_Wrapper_True_Inr[OF w] show ?thesis by blast
  qed
  have 3: "\<exists>a. Writer_write True (Wrapper calls) Index W = Inl a" if l: "length calls \<noteq> 1"
  proof (cases "Writer_write True (Wrapper calls) Index W")
    case (Inl a)
    then show ?thesis by blast
  next
    case (Inr W'')
    from 1[OF Inr] l show ?thesis by auto
  qed
  have 2: "Writer_write True (Wrapper calls) Index W = Inl WrapperTypeTraits_did_not_call_write"
    if w: "WrapperTypeTraits_write True calls Index W = Inr W'" and l: "length calls \<noteq> 1"
  proof -
    from 3[OF l] obtain a where a: "Writer_write True (Wrapper calls) Index W = Inl a" by blast
    with w show ?thesis by (simp add: Let_def split: if_splits)
  qed
  from 1 2 3 show ?thesis by blast
qed

theorem wrapper_delegates_exactly_once_witness:
  "Writer_write True (WrapperTypeTraits_bool True) 0
      \<lparr>StreamWriter = \<lparr>Bytes = [], Endian = little, Capacity = None\<rparr>,
       NumFields = 2, CurrentFieldIndex = 0\<rparr> =
     Inr \<lparr>StreamWriter = \<lparr>Bytes = [1, 0, 0, 0, 1], Endian = little, Capacity = None\<rparr>,
          NumFields = 2, CurrentFieldIndex = 1\<rparr> \<and>
   Writer_write True (Scalar (UInt8 1)) 0
      \<lparr>StreamWriter = \<lparr>Bytes = [], Endian = little, Capacity = None\<rparr>,
       NumFields = 2, CurrentFieldIndex = 0\<rparr> =
     Inr \<lparr>StreamWriter = \<lparr>Bytes = [1, 0, 0, 0, 1], Endian = little, Capacity = None\<rparr>,
          NumFields = 2, CurrentFieldIndex = 1\<rparr> \<and>
   WrapperTypeTraits_write True
      [(Scalar (UInt8 1), \<lambda>Index. Index), (Scalar (UInt8 1), \<lambda>Index. Index + 1)] 0
      \<lparr>StreamWriter = \<lparr>Bytes = [], Endian = little, Capacity = None\<rparr>,
       NumFields = 2, CurrentFieldIndex = 0\<rparr> =
     Inr \<lparr>StreamWriter = \<lparr>Bytes = [1, 0, 0, 0, 1, 1, 0, 0, 0, 1], Endian = little,
            Capacity = None\<rparr>,
          NumFields = 2, CurrentFieldIndex = 2\<rparr> \<and>
   Writer_write True
      (Wrapper [(Scalar (UInt8 1), \<lambda>Index. Index), (Scalar (UInt8 1), \<lambda>Index. Index + 1)]) 0
      \<lparr>StreamWriter = \<lparr>Bytes = [], Endian = little, Capacity = None\<rparr>,
       NumFields = 2, CurrentFieldIndex = 0\<rparr> =
     Inl WrapperTypeTraits_did_not_call_write \<and>
   Writer_write True (Wrapper []) 0
      \<lparr>StreamWriter = \<lparr>Bytes = [], Endian = little, Capacity = None\<rparr>,
       NumFields = 2, CurrentFieldIndex = 0\<rparr> =
     Inl WrapperTypeTraits_did_not_call_write \<and>
   (\<exists>a. Writer_write True
      (Wrapper [(Scalar (UInt8 1), \<lambda>Index. Index), (Scalar (UInt8 1), \<lambda>Index. Index)]) 0
      \<lparr>StreamWriter = \<lparr>Bytes = [], Endian = little, Capacity = None\<rparr>,
       NumFields = 2, CurrentFieldIndex = 0\<rparr> = Inl a)"
proof -
  let ?W = "\<lparr>StreamWriter = \<lparr>Bytes = [], Endian = little, Capacity = None\<rparr>,
       NumFields = 2, CurrentFieldIndex = 0\<rparr>"
  let ?W' = "\<lparr>StreamWriter = \<lparr>Bytes = [1, 0, 0, 0, 1], Endian = little, Capacity = None\<rparr>,
          NumFields = 2, CurrentFieldIndex = 1\<rparr>"
  let ?W'' = "\<lparr>StreamWriter = \<lparr>Bytes = [1, 0, 0, 0, 1, 1, 0, 0, 0, 1], Endian = little,
            Capacity = None\<rparr>,
          NumFields = 2, CurrentFieldIndex = 2\<rparr>"
  let ?once = "[(Scalar (UInt8 1), \<lambda>Index :: 32 word. Index)]"
  let ?twice = "[(Scalar (UInt8 1), \<lambda>Index :: 32 word. Index), (Scalar (UInt8 1), \<lambda>Index. Index + 1)]"
  let ?again = "[(Scalar (UInt8 1), \<lambda>Index :: 32 word. Index), (Scalar (UInt8 1), \<lambda>Index. Index)]"
  have h1: "Writer_write True (Wrapper ?once) 0 ?W = Inr ?W'"
    by (simp add: writer_simps)
  have h2: "WrapperTypeTraits_write True ?twice 0 ?W = Inr ?W''"
    by (simp add: writer_simps)
  have h3: "WrapperTypeTraits_write True [] 0 ?W = Inr ?W" by simp
  from wrapper_delegates_exactly_once[of ?once 0 ?W ?W'] h1
  have c1: "Writer_write True (Scalar (UInt8 1)) 0 ?W = Inr ?W'" by auto
  from wrapper_delegates_exactly_once[of ?twice 0 ?W ?W''] h2
  have c2: "Writer_write True (Wrapper ?twice) 0 ?W = Inl WrapperTypeTraits_did_not_call_write"
    by simp
  from wrapper_delegates_exactly_once[of "[]" 0 ?W ?W] h3
  have c3: "Writer_write True (Wrapper []) 0 ?W = Inl WrapperTypeTraits_did_not_call_write"
    by simp
  from wrapper_delegates_exactly_once[of ?again 0 ?W]
  have c4: "\<exists>a. Writer_write True (Wrapper ?again) 0 ?W = Inl a" by simp
  from h1 c1 h2 c2 c3 c4 show ?thesis by (simp add: WrapperTypeTraits_bool_def)
qed

subsection \<open>C7: the static entry point\<close>

text \<open>
  C7. On a stream writer that accepts 8 more bytes, and with a field count other than
  \<^verbatim>\<open>UINT_MAX\<close> in a validating build, the static \<^verbatim>\<open>write\<close> is one write of the root
  object at index 0 on a writer whose field count is 1, over the stream with the 4 bytes of
  the version appended and nothing else; the destructor of that writer never fails. The
  result is that of the root's own calls on a child writer over the stream with the version
  and then the 4 bytes of the root's field count appended, followed by the child's
  destructor: the field count 1 of the writer made for the root is not in the stream.
\<close>

theorem static_write_framing:
  assumes "accepts S 8" and "validating \<longrightarrow> numFields \<noteq> UINT_MAX"
  shows "write_static validating ProtocolVersion S numFields calls =
     (case Writer_write validating (Object numFields calls) 0
         \<lparr>StreamWriter = S\<lparr>Bytes := Bytes S @ integer_bytes (Endian S) ProtocolVersion\<rparr>,
          NumFields = 1, CurrentFieldIndex = 0\<rparr> of
        Inl a \<Rightarrow> Inl a
      | Inr Writer \<Rightarrow> Inr (StreamWriter Writer)) \<and>
   write_static validating ProtocolVersion S numFields calls =
     (case ObjectTraits_write validating calls
         \<lparr>StreamWriter = S\<lparr>Bytes := Bytes S @ integer_bytes (Endian S) ProtocolVersion @
                                 integer_bytes (Endian S) numFields\<rparr>,
          NumFields = numFields, CurrentFieldIndex = 0\<rparr> of
        Inl a \<Rightarrow> Inl a
      | Inr ObjectWriter \<Rightarrow>
          if validating \<and> CurrentFieldIndex ObjectWriter \<noteq> numFields
            then Inl Object_had_more_or_less_elements
          else Inr (StreamWriter ObjectWriter)) \<and>
   length (integer_bytes (Endian S) ProtocolVersion) = 4 \<and>
   length (integer_bytes (Endian S) numFields) = 4"
proof -
  let ?S1 = "S\<lparr>Bytes := Bytes S @ integer_bytes (Endian S) ProtocolVersion\<rparr>"
  let ?S2 = "S\<lparr>Bytes := Bytes S @ integer_bytes (Endian S) ProtocolVersion @
                                 integer_bytes (Endian S) numFields\<rparr>"
  let ?Root = "\<lparr>StreamWriter = ?S1, NumFields = 1, CurrentFieldIndex = 0\<rparr>"
  let ?OW = "\<lparr>StreamWriter = ?S2, NumFields = numFields, CurrentFieldIndex = 0\<rparr>"
  have l: "length (integer_bytes (Endian S) ProtocolVersion) = 4"
    "length (integer_bytes (Endian S) numFields) = 4"
    by (simp_all add: length_integer_bytes)
  from assms(1) have "accepts S 4" using accepts_less[of S 4 4] by simp
  then have v: "writeInteger ProtocolVersion S = (ErrorSuccess, ?S1)"
    using writeInteger_accepted[of S ProtocolVersion] by simp
  from assms(1) l have "accepts ?S1 4"
    using accepts_append[of S "integer_bytes (Endian S) ProtocolVersion" 4] by simp
  then have n: "writeInteger numFields ?S1 = (ErrorSuccess, ?S2)"
    using writeInteger_accepted[of ?S1 numFields] by simp
  have r: "validateAndIncreaseFieldIndex validating 0 ?Root =
      Inr \<lparr>StreamWriter = ?S1, NumFields = 1, CurrentFieldIndex = 1\<rparr>"
    by (simp add: validateAndIncreaseFieldIndex_def UINT_MAX_def)
  have s: "setNumFields validating numFields (ByteTreeWriter_new ?S1) = Inr ?OW"
    using assms(2) n by (simp add: setNumFields_def ByteTreeWriter_new_def)
  have root: "Writer_write validating (Object numFields calls) 0 ?Root =
     (case ObjectTraits_write validating calls ?OW of
        Inl a \<Rightarrow> Inl a
      | Inr ObjectWriter \<Rightarrow>
          (case destroy validating ObjectWriter of
             Inl a \<Rightarrow> Inl a
           | Inr u \<Rightarrow> Inr \<lparr>StreamWriter = StreamWriter ObjectWriter, NumFields = 1,
                          CurrentFieldIndex = 1\<rparr>))"
    by (simp add: r s split: sum.splits)
  have static: "write_static validating ProtocolVersion S numFields calls =
     (case Writer_write validating (Object numFields calls) 0 ?Root of
        Inl a \<Rightarrow> Inl a
      | Inr Writer \<Rightarrow>
          (case destroy validating Writer of
             Inl a \<Rightarrow> Inl a
           | Inr u \<Rightarrow> Inr (StreamWriter Writer)))"
    by (simp add: write_static_def ByteTreeWriter_new_def v del: Writer_write.simps)
  have d1: "destroy validating \<lparr>StreamWriter = X, NumFields = 1, CurrentFieldIndex = 1\<rparr> =
      Inr ()" for X
    by (simp add: destroy_def)
  have k: "NumFields OW = numFields"
    if "validating" and "ObjectTraits_write validating calls ?OW = Inr OW" for OW
    using advance(2)[OF that] by simp
  have d: "destroy validating OW =
      (if validating \<and> CurrentFieldIndex OW \<noteq> numFields
         then Inl Object_had_more_or_less_elements else Inr ())"
    if "ObjectTraits_write validating calls ?OW = Inr OW" for OW
    using k[OF _ that] by (auto simp: destroy_def)
  have 1: "write_static validating ProtocolVersion S numFields calls =
     (case Writer_write validating (Object numFields calls) 0 ?Root of
        Inl a \<Rightarrow> Inl a
      | Inr Writer \<Rightarrow> Inr (StreamWriter Writer))"
  proof (cases "ObjectTraits_write validating calls ?OW")
    case (Inl a)
    then show ?thesis by (simp add: static root del: Writer_write.simps)
  next
    case (Inr OW)
    then show ?thesis by (simp add: static root d d1 del: Writer_write.simps)
  qed
  have 2: "write_static validating ProtocolVersion S numFields calls =
     (case ObjectTraits_write validating calls ?OW of
        Inl a \<Rightarrow> Inl a
      | Inr ObjectWriter \<Rightarrow>
          if validating \<and> CurrentFieldIndex ObjectWriter \<noteq> numFields
            then Inl Object_had_more_or_less_elements
          else Inr (StreamWriter ObjectWriter))"
  proof (cases "ObjectTraits_write validating calls ?OW")
    case (Inl a)
    then show ?thesis by (simp add: static root del: Writer_write.simps)
  next
    case (Inr OW)
    then show ?thesis by (simp add: static root d d1 del: Writer_write.simps)
  qed
  from 1 2 l show ?thesis by simp
qed

theorem static_write_framing_witness:
  "accepts \<lparr>Bytes = [], Endian = little, Capacity = Some 12\<rparr> 8 \<and>
   (1 :: 32 word) \<noteq> UINT_MAX \<and>
   write_static True 1 \<lparr>Bytes = [], Endian = little, Capacity = Some 12\<rparr> 1
       [(Scalar NoneType, 0)] =
     Inr \<lparr>Bytes = [1, 0, 0, 0, 1, 0, 0, 0, 0, 0, 0, 0], Endian = little, Capacity = Some 12\<rparr>"
proof -
  let ?S = "\<lparr>Bytes = [], Endian = little, Capacity = Some 12\<rparr>"
  have a: "accepts ?S 8" by (simp add: accepts_def)
  have b: "True \<longrightarrow> (1 :: 32 word) \<noteq> UINT_MAX" by (simp add: UINT_MAX_def)
  from static_write_framing[OF a b, of 1 "[(Scalar NoneType, 0)]"]
  have "write_static True 1 ?S 1 [(Scalar NoneType, 0)] =
     Inr \<lparr>Bytes = [1, 0, 0, 0, 1, 0, 0, 0, 0, 0, 0, 0], Endian = little, Capacity = Some 12\<rparr>"
    by (simp add: writer_simps)
  with a b show ?thesis by simp
qed

subsection \<open>C8: scenario C\<close>

text \<open>
  C8, as stated, gives the length of the nested field as the single byte \<open>01\<close>. On an empty
  little-endian stream, with version 1, the bytes after the version are
  \<open>01 00 00 00\<close>, \<open>01 00 00 00\<close>, \<open>01 00 00 00\<close>, \<open>07\<close>: the length takes four bytes, as
  every \<^verbatim>\<open>uint32_t ValueSize\<close> does, and the stream is not the one of the claim.
\<close>

theorem scenario_C_length_is_one_byte_counterexample:
  "write_static True 1 \<lparr>Bytes = [], Endian = little, Capacity = None\<rparr> 1
       [(Object 1 [(Scalar (UInt8 7), 0)], 0)] =
     Inr \<lparr>Bytes = [1, 0, 0, 0] @ [1, 0, 0, 0, 1, 0, 0, 0, 1, 0, 0, 0, 7],
          Endian = little, Capacity = None\<rparr> \<and>
   write_static True 1 \<lparr>Bytes = [], Endian = little, Capacity = None\<rparr> 1
       [(Object 1 [(Scalar (UInt8 7), 0)], 0)] \<noteq>
     Inr \<lparr>Bytes = [1, 0, 0, 0] @ [1, 0, 0, 0, 1, 0, 0, 0, 1, 7],
          Endian = little, Capacity = None\<rparr>"
  by (simp add: writer_simps)

text \<open>
  C8, amended. On a little-endian stream writer that accepts 17 more bytes, in either build,
  the static \<^verbatim>\<open>write\<close> of a root object with one field that is an object with the one
  field \<^verbatim>\<open>uint8_t\<close> 7 returns and has appended the version, the root's field count
  \<open>01 00 00 00\<close>, the nested object's field count \<open>01 00 00 00\<close>, the nested field's length
  \<open>01 00 00 00\<close> and its value \<open>07\<close>; there is no length in front of the nested object.
\<close>

theorem scenario_C_bytes:
  assumes "Endian S = little" and "accepts S 17"
  shows "write_static validating ProtocolVersion S 1 [(Object 1 [(Scalar (UInt8 7), 0)], 0)] =
     Inr (S\<lparr>Bytes := Bytes S @ integer_bytes little ProtocolVersion @
       [1, 0, 0, 0, 1, 0, 0, 0, 1, 0, 0, 0, 7]\<rparr>)"
  using assms by (cases "Capacity S") (simp_all add: writer_simps)

theorem scenario_C_bytes_witness:
  "Endian \<lparr>Bytes = [], Endian = little, Capacity = Some 17\<rparr> = little \<and>
   accepts \<lparr>Bytes = [], Endian = little, Capacity = Some 17\<rparr> 17 \<and>
   write_static True 1 \<lparr>Bytes = [], Endian = little, Capacity = Some 17\<rparr> 1
       [(Object 1 [(Scalar (UInt8 7), 0)], 0)] =
     Inr \<lparr>Bytes = [1, 0, 0, 0, 1, 0, 0, 0, 1, 0, 0, 0, 1, 0, 0, 0, 7],
          Endian = little, Capacity = Some 17\<rparr>"
proof -
  let ?S = "\<lparr>Bytes = [], Endian = little, Capacity = Some 17\<rparr>"
  have e: "Endian ?S = little" by simp
  have a: "accepts ?S 17" by (simp add: accepts_def)
  from scenario_C_bytes[OF e a, of True 1] e a show ?thesis
    by (simp add: integer_bytes_def le_bytes_4)
qed

subsection \<open>C9: an empty string and \<open>None\<close> are written alike\<close>

lemma ObjectTraits_write_append:
  "ObjectTraits_write v (before @ rest) W =
     (case ObjectTraits_write v before W of Inl a \<Rightarrow> Inl a
      | Inr W1 \<Rightarrow> ObjectTraits_write v rest W1)"
proof (induction before arbitrary: W)
  case Nil
  then show ?case by simp
next
  case (Cons c before)
  obtain x i where "c = (x, i)" by (cases c)
  with Cons show ?case by (simp split: sum.splits)
qed

lemma writeFixedString_empty: "writeFixedString [] S = (ErrorSuccess, S)"
  by (simp add: writeFixedString_def writeBytes_def accepts_def split: option.splits)

lemma write_scalar_empty_StringRef:
  "write_scalar v (StringRef []) Index W = write_scalar v NoneType Index W"
  by (auto simp: write_scalar_def writeFixedString_empty Let_def split: sum.splits prod.splits)

lemma integer_bytes_zero_32: "integer_bytes e (0 :: 32 word) = [0, 0, 0, 0]"
  by (cases e) (simp_all add: integer_bytes_def le_bytes_4)

text \<open>
  C9. In either build, writing a \<^verbatim>\<open>StringRef\<close> of length 0 at an index of a writer does
  what writing \<^verbatim>\<open>llvm::None\<close> does there, and a root object gives the same result with the
  one as with the other among its calls. On a stream writer that accepts 4 more bytes, what
  is appended is a length of four zero bytes and no content.
\<close>

theorem empty_string_is_written_as_None:
  "Writer_write validating (Scalar (StringRef [])) Index W =
     Writer_write validating (Scalar NoneType) Index W \<and>
   write_static validating ProtocolVersion S numFields
       (before @ (Scalar (StringRef []), Index) # rest) =
     write_static validating ProtocolVersion S numFields
       (before @ (Scalar NoneType, Index) # rest) \<and>
   (accepts (StreamWriter W) 4 \<longrightarrow>
    Writer_write validating (Scalar NoneType) Index W = Inr W' \<longrightarrow>
      Bytes (StreamWriter W') = Bytes (StreamWriter W) @ [0, 0, 0, 0])"
proof -
  have 1: "Writer_write validating (Scalar (StringRef [])) Index W =
     Writer_write validating (Scalar NoneType) Index W" for W
    by (simp add: write_scalar_empty_StringRef)
  have o: "ObjectTraits_write validating (before @ (Scalar (StringRef []), Index) # rest) W =
     ObjectTraits_write validating (before @ (Scalar NoneType, Index) # rest) W" for W
    by (simp add: ObjectTraits_write_append write_scalar_empty_StringRef split: sum.splits)
  have r: "Writer_write validating
       (Object numFields (before @ (Scalar (StringRef []), Index) # rest)) i W =
     Writer_write validating
       (Object numFields (before @ (Scalar NoneType, Index) # rest)) i W" for i W
    by (simp add: o cong: sum.case_cong)
  have 2: "write_static validating ProtocolVersion S numFields
       (before @ (Scalar (StringRef []), Index) # rest) =
     write_static validating ProtocolVersion S numFields
       (before @ (Scalar NoneType, Index) # rest)"
    by (simp add: write_static_def r del: Writer_write.simps cong: prod.case_cong
        if_cong sum.case_cong)
  have 3: "Bytes (StreamWriter W') = Bytes (StreamWriter W) @ [0, 0, 0, 0]"
    if a: "accepts (StreamWriter W) 4"
      and w: "Writer_write validating (Scalar NoneType) Index W = Inr W'"
  proof -
    obtain W1 where v: "validateAndIncreaseFieldIndex validating Index W = Inr W1"
      using w by (auto simp: write_scalar_def split: sum.splits)
    then have s: "StreamWriter W1 = StreamWriter W"
      by (auto simp: validateAndIncreaseFieldIndex_def split: if_splits)
    from a have "writeInteger (0 :: 32 word) (StreamWriter W) =
        (ErrorSuccess, (StreamWriter W)\<lparr>Bytes := Bytes (StreamWriter W) @ [0, 0, 0, 0]\<rparr>)"
      using writeInteger_accepted[of "StreamWriter W" "0 :: 32 word"]
      by (simp add: integer_bytes_zero_32)
    with w v s show ?thesis
      by (auto simp: write_scalar_def Let_def split: if_splits)
  qed
  from 1 2 3 show ?thesis by blast
qed

theorem empty_string_is_written_as_None_witness:
  "accepts \<lparr>Bytes = [7], Endian = big, Capacity = Some 5\<rparr> 4 \<and>
   Writer_write True (Scalar (StringRef [])) 0
      \<lparr>StreamWriter = \<lparr>Bytes = [7], Endian = big, Capacity = Some 5\<rparr>,
       NumFields = 1, CurrentFieldIndex = 0\<rparr> =
     Inr \<lparr>StreamWriter = \<lparr>Bytes = [7, 0, 0, 0, 0], Endian = big, Capacity = Some 5\<rparr>,
          NumFields = 1, CurrentFieldIndex = 1\<rparr> \<and>
   Writer_write True (Scalar NoneType) 0
      \<lparr>StreamWriter = \<lparr>Bytes = [7], Endian = big, Capacity = Some 5\<rparr>,
       NumFields = 1, CurrentFieldIndex = 0\<rparr> =
     Inr \<lparr>StreamWriter = \<lparr>Bytes = [7, 0, 0, 0, 0], Endian = big, Capacity = Some 5\<rparr>,
          NumFields = 1, CurrentFieldIndex = 1\<rparr>"
proof -
  let ?S = "\<lparr>Bytes = [7], Endian = big, Capacity = Some 5\<rparr>"
  let ?W = "\<lparr>StreamWriter = ?S, NumFields = 1, CurrentFieldIndex = 0\<rparr>"
  let ?W' = "\<lparr>StreamWriter = \<lparr>Bytes = [7, 0, 0, 0, 0], Endian = big, Capacity = Some 5\<rparr>,
          NumFields = 1, CurrentFieldIndex = 1\<rparr>"
  have a: "accepts ?S 4" by (simp add: accepts_def)
  have h: "Writer_write True (Scalar NoneType) 0 ?W = Inr ?W'"
    by (simp add: writer_simps)
  from empty_string_is_written_as_None[of True 0 ?W _ _ _ _ _ ?W'] h
  have "Writer_write True (Scalar (StringRef [])) 0 ?W = Inr ?W'"
    by simp
  with a h show ?thesis by simp
qed

subsection \<open>C10: the field count \<open>UINT_MAX\<close> is the "not yet set" sentinel\<close>

text \<open>
  C10. In a validating build \<^verbatim>\<open>setNumFields\<close> rejects a declared field count of
  \<^verbatim>\<open>UINT_MAX\<close>, which is \<open>2\<^sup>3\<^sup>2 - 1\<close> and the initial value of the member
  \<^verbatim>\<open>NumFields\<close>. So the write of an object that declares \<open>2\<^sup>3\<^sup>2 - 1\<close> fields never returns,
  whatever its calls, and whenever \<^verbatim>\<open>setNumFields\<close> returns, the field count it has stored
  is the declared one and is not the sentinel.
\<close>

theorem setNumFields_rejects_sentinel:
  "setNumFields True UINT_MAX W = Inl NumFields_may_not_be_reset \<and>
   unat UINT_MAX = 2 ^ 32 - 1 \<and>
   NumFields (ByteTreeWriter_new S) = UINT_MAX \<and>
   (\<exists>a. Writer_write True (Object UINT_MAX calls) Index W = Inl a) \<and>
   (setNumFields True N W = Inr W' \<longrightarrow>
      N \<noteq> UINT_MAX \<and> NumFields W' = N \<and> NumFields W' \<noteq> UINT_MAX)"
proof -
  have 1: "setNumFields True UINT_MAX W' = Inl NumFields_may_not_be_reset" for W'
    by (simp add: setNumFields_def)
  have "\<exists>a. Writer_write True (Object UINT_MAX calls) Index W = Inl a"
    by (cases "validateAndIncreaseFieldIndex True Index W") (simp_all add: 1)
  moreover have "N \<noteq> UINT_MAX \<and> NumFields W' = N \<and> NumFields W' \<noteq> UINT_MAX"
    if "setNumFields True N W = Inr W'"
    using setNumFields_True_Inr[OF that] by simp
  ultimately show ?thesis
    using 1[of W] UINT_MAX_value by (simp add: ByteTreeWriter_new_def)
qed

theorem setNumFields_rejects_sentinel_witness:
  "setNumFields True 2 (ByteTreeWriter_new \<lparr>Bytes = [], Endian = little, Capacity = None\<rparr>) =
     Inr \<lparr>StreamWriter = \<lparr>Bytes = [2, 0, 0, 0], Endian = little, Capacity = None\<rparr>,
          NumFields = 2, CurrentFieldIndex = 0\<rparr> \<and>
   (2 :: 32 word) \<noteq> UINT_MAX"
proof -
  have h: "setNumFields True 2 (ByteTreeWriter_new \<lparr>Bytes = [], Endian = little, Capacity = None\<rparr>) =
     Inr \<lparr>StreamWriter = \<lparr>Bytes = [2, 0, 0, 0], Endian = little, Capacity = None\<rparr>,
          NumFields = 2, CurrentFieldIndex = 0\<rparr>"
    by (simp add: writer_simps)
  from setNumFields_rejects_sentinel[of
      "ByteTreeWriter_new \<lparr>Bytes = [], Endian = little, Capacity = None\<rparr>"
      "\<lparr>Bytes = [], Endian = little, Capacity = None\<rparr>" "[]" 0 2
      "\<lparr>StreamWriter = \<lparr>Bytes = [2, 0, 0, 0], Endian = little, Capacity = None\<rparr>,
          NumFields = 2, CurrentFieldIndex = 0\<rparr>"] h
  have "(2 :: 32 word) \<noteq> UINT_MAX" by blast
  with h show ?thesis by simp
qed

end
